theory Spec2Isabelle
  imports Main "HOL-Library.Word"
begin

unbundle bit_operations_syntax

section \<open>Blam data arrays: handles, data arrays and their iterators\<close>

text \<open>
  A shallow embedding of \<^verbatim>\<open>src/Blam/BlamData.hpp\<close>. The target is 32-bit x86
  (the header's own \<^verbatim>\<open>static_assert(sizeof(DataArrayBase) == 0x54)\<close> only holds
  with 4-byte pointers), so \<^verbatim>\<open>uint32_t\<close> and pointers are \<open>32 word\<close>,
  \<^verbatim>\<open>uint16_t\<close> is \<open>16 word\<close>, and \<^verbatim>\<open>int\<close> is modelled by \<open>int\<close>; the one
  place where an \<^verbatim>\<open>int\<close> product can leave the 32-bit range (the address
  computation of \<^verbatim>\<open>GetAddress\<close>) reduces it modulo \<open>2 ^ 32\<close> explicitly.
\<close>

subsection \<open>DatumIndex\<close>

type_synonym TSalt = "16 word"
type_synonym TIndex = "16 word"
type_synonym ptr = "32 word"

text \<open>\<^verbatim>\<open>struct DatumIndex { uint32_t Handle; ... }\<close>\<close>

datatype DatumIndex = DatumIndex (Handle: "32 word")

text \<open>\<^verbatim>\<open>DatumIndex() : Handle(0xFFFFFFFF) { }\<close>\<close>

definition DatumIndex_default :: DatumIndex where
  "DatumIndex_default = DatumIndex 0xFFFFFFFF"

text \<open>
  \<^verbatim>\<open>DatumIndex(TSalt salt, TIndex index) { Handle = (salt << 16) | index; }\<close>
  Both operands are promoted to 32 bits before the shift and the bitwise or; the
  resulting bit pattern is stored in the \<^verbatim>\<open>uint32_t\<close> field. (For a salt of
  \<open>0x8000\<close> or more the shift reaches the sign bit of the promoted \<^verbatim>\<open>int\<close>; the
  model takes the two's-complement bit pattern, as the compilers of the 32-bit
  target do.)
\<close>

definition DatumIndex_make :: "TSalt \<Rightarrow> TIndex \<Rightarrow> DatumIndex" where
  "DatumIndex_make salt index = DatumIndex (push_bit 16 (ucast salt) OR ucast index)"

text \<open>\<^verbatim>\<open>TSalt Salt() const { return Handle >> 16; }\<close>\<close>

definition Salt :: "DatumIndex \<Rightarrow> TSalt" where
  "Salt d = ucast (drop_bit 16 (Handle d))"

text \<open>\<^verbatim>\<open>TIndex Index() const { return Handle & 0xFFFF; }\<close>\<close>

definition Index :: "DatumIndex \<Rightarrow> TIndex" where
  "Index d = ucast (Handle d AND 0xFFFF)"

text \<open>
  Modelled from the spec: the header only declares
  \<^verbatim>\<open>static const DatumIndex Null;\<close> ("Represents a null datum index"); the
  definition of the constant is not in the header. The specification gives its
  value: "A dedicated null sentinel value (all bits set) represents no object."
\<close>

definition Null :: DatumIndex where
  "Null = DatumIndex 0xFFFFFFFF"

text \<open>\<^verbatim>\<open>bool operator==(const DatumIndex other) const { return Handle == other.Handle; }\<close>\<close>

definition DatumIndex_eq :: "DatumIndex \<Rightarrow> DatumIndex \<Rightarrow> bool" where
  "DatumIndex_eq this other = (Handle this = Handle other)"

text \<open>\<^verbatim>\<open>bool operator!=(const DatumIndex other) const { return !(*this == other); }\<close>\<close>

definition DatumIndex_ne :: "DatumIndex \<Rightarrow> DatumIndex \<Rightarrow> bool" where
  "DatumIndex_ne this other = (\<not> DatumIndex_eq this other)"

text \<open>\<^verbatim>\<open>operator uint32_t() const { return Handle; }\<close>\<close>

definition DatumIndex_to_uint32 :: "DatumIndex \<Rightarrow> 32 word" where
  "DatumIndex_to_uint32 this = Handle this"

text \<open>\<^verbatim>\<open>operator bool() const { return *this != Null; }\<close>\<close>

definition DatumIndex_to_bool :: "DatumIndex \<Rightarrow> bool" where
  "DatumIndex_to_bool this = DatumIndex_ne this Null"

subsection \<open>DatumBase\<close>

text \<open>\<^verbatim>\<open>struct DatumBase { private: DatumIndex::TSalt salt; ... }\<close>\<close>

datatype DatumBase = DatumBase (salt: TSalt)

definition GetSalt :: "DatumBase \<Rightarrow> TSalt" where
  "GetSalt d = salt d"

definition IsNull :: "DatumBase \<Rightarrow> bool" where
  "IsNull d = (salt d = 0)"

subsection \<open>DataArrayBase\<close>

record DataArrayBase =
  Name :: string
  MaxCount :: int
  DatumSize :: int
  Alignment :: "8 word"
  IsValid :: bool
  Flags :: "16 word"
  Signature :: int
  Allocator :: ptr
  NextIndex :: int
  FirstUnallocated :: int
  ActualCount :: int
  NextSalt :: TSalt
  AltNextSalt :: TSalt
  Data :: ptr
  ActiveIndices :: ptr
  HeaderSize :: int
  TotalSize :: int

text \<open>
  \<^verbatim>\<open>auto address = static_cast<uint8_t*>(Data) + index.Index() * DatumSize;\<close>
  The index is promoted to \<^verbatim>\<open>int\<close> and multiplied by the \<^verbatim>\<open>int\<close> datum size; the
  byte offset is added to the 32-bit base address. Nothing else is consulted.
\<close>

definition GetAddress :: "'a DataArrayBase_scheme \<Rightarrow> DatumIndex \<Rightarrow> ptr" where
  "GetAddress this index = Data this + word_of_int (uint (Index index) * DatumSize this)"

subsection \<open>DataIteratorBase\<close>

record DataIteratorBase =
  Array :: ptr
  CurrentDatumIndex :: DatumIndex
  CurrentIndex :: int

text \<open>
  \<^verbatim>\<open>explicit DataIteratorBase(const DataArrayBase *data)
    : Array(data), CurrentDatumIndex(DatumIndex::Null), CurrentIndex(-1) { }\<close>
  The typed \<^verbatim>\<open>DataIterator\<close> and \<^verbatim>\<open>ConstDataIterator\<close> constructors only
  forward to this one.
\<close>

definition DataIteratorBase_new :: "ptr \<Rightarrow> DataIteratorBase" where
  "DataIteratorBase_new data =
     \<lparr>Array = data, CurrentDatumIndex = Null, CurrentIndex = - 1\<rparr>"

text \<open>
  \<^verbatim>\<open>bool operator==(const DataIterator<TDatum> &rhs) const
    { return Array == rhs.Array && CurrentIndex == rhs.CurrentIndex
          && CurrentDatumIndex == rhs.CurrentDatumIndex; }\<close>
\<close>

definition DataIterator_eq :: "DataIteratorBase \<Rightarrow> DataIteratorBase \<Rightarrow> bool" where
  "DataIterator_eq this rhs =
     (Array this = Array rhs \<and> CurrentIndex this = CurrentIndex rhs
      \<and> DatumIndex_eq (CurrentDatumIndex this) (CurrentDatumIndex rhs))"

definition DataIterator_ne :: "DataIteratorBase \<Rightarrow> DataIteratorBase \<Rightarrow> bool" where
  "DataIterator_ne this rhs = (\<not> DataIterator_eq this rhs)"

subsection \<open>The memory behind a data array\<close>

text \<open>
  \<^verbatim>\<open>Data\<close> and \<^verbatim>\<open>ActiveIndices\<close> are raw pointers. The typed array
  \<^verbatim>\<open>DataArray<TDatum> : DataArrayBase\<close> is modelled as the header extended by the
  contents of the two blocks they point to: the \<^verbatim>\<open>DatumBase\<close> prefix of every slot
  stored at \<^verbatim>\<open>Data\<close> (slot \<open>i\<close> lives at byte offset \<open>i * DatumSize\<close>; the payload
  after the prefix is caller-defined and not modelled) and the 32-bit words of the
  bit array at \<^verbatim>\<open>ActiveIndices\<close> ("1 bit per index, where 1 = used and 0 = unused").
  An access outside a block is undefined behaviour in C++; the model reports it as
  the fault \<open>OutOfBounds\<close>.
\<close>

record DataArray = DataArrayBase +
  Datums :: "DatumBase list"
  ActiveWords :: "32 word list"

datatype fault = OutOfBounds

definition read_datum :: "DataArray \<Rightarrow> int \<Rightarrow> fault + DatumBase" where
  "read_datum a i =
     (if 0 \<le> i \<and> i < int (length (Datums a)) then Inr (Datums a ! nat i)
      else Inl OutOfBounds)"

definition write_datum :: "DataArray \<Rightarrow> int \<Rightarrow> DatumBase \<Rightarrow> fault + DataArray" where
  "write_datum a i d =
     (if 0 \<le> i \<and> i < int (length (Datums a))
      then Inr (a\<lparr>Datums := (Datums a)[nat i := d]\<rparr>)
      else Inl OutOfBounds)"

definition read_active :: "DataArray \<Rightarrow> int \<Rightarrow> fault + bool" where
  "read_active a i =
     (if 0 \<le> i \<and> i div 32 < int (length (ActiveWords a))
      then Inr (bit (ActiveWords a ! nat (i div 32)) (nat (i mod 32)))
      else Inl OutOfBounds)"

definition write_active :: "DataArray \<Rightarrow> int \<Rightarrow> bool \<Rightarrow> fault + DataArray" where
  "write_active a i b =
     (if 0 \<le> i \<and> i div 32 < int (length (ActiveWords a))
      then Inr (a\<lparr>ActiveWords := (ActiveWords a)[nat (i div 32) :=
                  (if b then set_bit (nat (i mod 32)) (ActiveWords a ! nat (i div 32))
                   else unset_bit (nat (i mod 32)) (ActiveWords a ! nat (i div 32)))]\<rparr>)
      else Inl OutOfBounds)"

text \<open>
  The blocks are large enough for the declared capacity: \<^verbatim>\<open>Data\<close> holds
  \<^verbatim>\<open>MaxCount\<close> slots and \<^verbatim>\<open>ActiveIndices\<close> holds one bit for each of them.
\<close>

definition datums_allocated :: "DataArray \<Rightarrow> bool" where
  "datums_allocated a = (MaxCount a \<le> int (length (Datums a)))"

definition active_allocated :: "DataArray \<Rightarrow> bool" where
  "active_allocated a = (MaxCount a \<le> 32 * int (length (ActiveWords a)))"

subsection \<open>Checked lookup\<close>

text \<open>
  Modelled from the spec: the header only declares
  \<^verbatim>\<open>DatumBase* Get(DatumIndex index) const;\<close> ("Returns null if the datum index
  does not match a valid datum"); its body is not in the header. The
  specification of the lookup: "returns a reference/pointer to the slot's payload iff
  h.SlotIndex() < capacity AND the slot's stored generation equals h.Generation() AND
  that generation is nonzero; otherwise signals not found (never dereferences
  out-of-range memory)". \<open>None\<close> is the null pointer.
\<close>

definition Get :: "DataArray \<Rightarrow> DatumIndex \<Rightarrow> fault + ptr option" where
  "Get this index =
     (if uint (Index index) < MaxCount this then
        (case read_datum this (uint (Index index)) of
           Inl f \<Rightarrow> Inl f
         | Inr d \<Rightarrow>
             if GetSalt d = Salt index \<and> \<not> IsNull d
             then Inr (Some (GetAddress this index))
             else Inr None)
      else Inr None)"

subsection \<open>Iteration\<close>

text \<open>
  The iterator stores a pointer to its array; the array it points to is passed to the
  model as the first argument.
\<close>

text \<open>
  Modelled from the spec: the scan inside \<^verbatim>\<open>DataIteratorBase::Next\<close>, whose body is
  not in the header. "Scans forward from the current index (inclusive of next
  position) using the bitmap to find the next set bit [...] or signals exhausted once
  the scan passes capacity."
\<close>

function next_active :: "DataArray \<Rightarrow> int \<Rightarrow> fault + int option" where
  "next_active a i =
     (if i < MaxCount a then
        (case read_active a i of
           Inl f \<Rightarrow> Inl f
         | Inr b \<Rightarrow> if b then Inr (Some i) else next_active a (i + 1))
      else Inr None)"
  by pat_completeness auto
termination
  by (relation "measure (\<lambda>(a, i). nat (MaxCount a - i))") auto

text \<open>
  Modelled from the spec: the header only declares \<^verbatim>\<open>DatumBase* Next();\<close> ("Moves to
  the next datum and returns a pointer to it. Returns null if at the end of the
  array"). The specification of the step: "scans forward from the current index
  (inclusive of next position) using the bitmap to find the next set bit; updates
  current index and current handle; returns a reference to that slot's payload, or
  signals exhausted once the scan passes capacity", and of the position reached
  then: "End-of-range sentinel: an iterator whose current index equals capacity".
  The specification does not say what the current handle is after exhaustion; the
  model gives it the null handle, the state \<^verbatim>\<open>end()\<close> builds and the only one at
  which the loop \<^verbatim>\<open>it != end()\<close> of the header's begin/end pair stops. \<open>None\<close> is
  the null pointer.
\<close>

definition Next :: "DataArray \<Rightarrow> DataIteratorBase \<Rightarrow> fault + (ptr option \<times> DataIteratorBase)" where
  "Next a this =
     (case next_active a (CurrentIndex this + 1) of
        Inl f \<Rightarrow> Inl f
      | Inr None \<Rightarrow>
          Inr (None, this\<lparr>CurrentDatumIndex := Null, CurrentIndex := MaxCount a\<rparr>)
      | Inr (Some i) \<Rightarrow>
          (case read_datum a i of
             Inl f \<Rightarrow> Inl f
           | Inr d \<Rightarrow>
               Inr (Some (Data a + word_of_int (i * DatumSize a)),
                    this\<lparr>CurrentDatumIndex := DatumIndex_make (GetSalt d) (word_of_int i),
                         CurrentIndex := i\<rparr>)))"

text \<open>
  \<^verbatim>\<open>DataIterator<TDatum> begin() { DataIterator<TDatum> result(this); result.Next(); return result; }\<close>
\<close>

definition DataArray_begin :: "ptr \<Rightarrow> DataArray \<Rightarrow> fault + DataIteratorBase" where
  "DataArray_begin this a =
     (case Next a (DataIteratorBase_new this) of
        Inl f \<Rightarrow> Inl f
      | Inr (p, result) \<Rightarrow> Inr result)"

text \<open>
  \<^verbatim>\<open>DataIterator<TDatum> end() { DataIterator<TDatum> result(this); result.CurrentIndex = MaxCount; return result; }\<close>
\<close>

definition DataArray_end :: "ptr \<Rightarrow> DataArray \<Rightarrow> DataIteratorBase" where
  "DataArray_end this a = (DataIteratorBase_new this)\<lparr>CurrentIndex := MaxCount a\<rparr>"

text \<open>\<^verbatim>\<open>DataIterator<TDatum>& operator++() { Next(); return *this; }\<close>\<close>

definition DataIterator_inc :: "DataArray \<Rightarrow> DataIteratorBase \<Rightarrow> fault + DataIteratorBase" where
  "DataIterator_inc a this =
     (case Next a this of Inl f \<Rightarrow> Inl f | Inr (p, this') \<Rightarrow> Inr this')"

text \<open>
  \<^verbatim>\<open>TDatum* operator->() const { return static_cast<TDatum*>(Array->GetAddress(CurrentDatumIndex)); }\<close>
\<close>

definition DataIterator_arrow :: "DataArray \<Rightarrow> DataIteratorBase \<Rightarrow> ptr" where
  "DataIterator_arrow a this = GetAddress a (CurrentDatumIndex this)"

text \<open>A slot found by the scan lies between its start and the capacity.\<close>

declare next_active.simps [simp del]

lemma next_active_found:
  "next_active a i = Inr (Some j) \<Longrightarrow> i \<le> j \<and> j < MaxCount a"
proof (induction a i rule: next_active.induct)
  case (1 a i)
  note unfold = next_active.simps [of a i]
  show ?case
  proof (cases "i < MaxCount a")
    case False
    with "1.prems" unfold show ?thesis by simp
  next
    case lt: True
    show ?thesis
    proof (cases "read_active a i")
      case (Inl f)
      with lt "1.prems" unfold show ?thesis by simp
    next
      case (Inr b)
      show ?thesis
      proof (cases b)
        case True
        with Inr lt "1.prems" unfold show ?thesis by simp
      next
        case False
        with Inr lt "1.prems" unfold have "next_active a (i + 1) = Inr (Some j)" by simp
        with "1.IH" [OF lt Inr False] show ?thesis by simp
      qed
    qed
  qed
qed

text \<open>
  The loop \<^verbatim>\<open>for (auto it = array.begin(); it != array.end(); ++it)\<close> over the
  array \<open>a\<close> the iterator is bound to (located at \<open>Array it\<close>), returning the
  iterator states at which the loop body runs. The loop ends: every step either
  moves to a larger index below the capacity or reaches the end sentinel.
\<close>

function iterate :: "DataArray \<Rightarrow> DataIteratorBase \<Rightarrow> fault + DataIteratorBase list" where
  "iterate a it =
     (if DataIterator_ne it (DataArray_end (Array it) a) then
        (case DataIterator_inc a it of
           Inl f \<Rightarrow> Inl f
         | Inr it' \<Rightarrow>
             (case iterate a it' of Inl f \<Rightarrow> Inl f | Inr its \<Rightarrow> Inr (it # its)))
      else Inr [])"
  by pat_completeness auto
termination
proof (relation "measure (\<lambda>(a, it).
          if DataIterator_eq it (DataArray_end (Array it) a) then 0
          else if CurrentIndex it < MaxCount a then nat (MaxCount a - CurrentIndex it) + 1
          else 1)")
  show "wf (measure (\<lambda>(a, it).
          if DataIterator_eq it (DataArray_end (Array it) a) then 0
          else if CurrentIndex it < MaxCount a then nat (MaxCount a - CurrentIndex it) + 1
          else 1))"
    by simp
next
  fix a it it'
  assume ne: "DataIterator_ne it (DataArray_end (Array it) a)"
    and inc: "DataIterator_inc a it = Inr it'"
  show "((a, it'), (a, it)) \<in> measure (\<lambda>(a, it).
          if DataIterator_eq it (DataArray_end (Array it) a) then 0
          else if CurrentIndex it < MaxCount a then nat (MaxCount a - CurrentIndex it) + 1
          else 1)"
  proof (cases "next_active a (CurrentIndex it + 1)")
    case (Inl f)
    with inc show ?thesis by (simp add: DataIterator_inc_def Next_def)
  next
    case (Inr r)
    show ?thesis
    proof (cases r)
      case None
      with Inr inc have "it' = it\<lparr>CurrentDatumIndex := Null, CurrentIndex := MaxCount a\<rparr>"
        by (auto simp: DataIterator_inc_def Next_def)
      then have "DataIterator_eq it' (DataArray_end (Array it') a)"
        by (simp add: DataIterator_eq_def DataArray_end_def DataIteratorBase_new_def DatumIndex_eq_def)
      with ne show ?thesis by (simp add: DataIterator_ne_def)
    next
      case (Some j)
      with Inr have b: "CurrentIndex it + 1 \<le> j \<and> j < MaxCount a"
        using next_active_found by blast
      from Some Inr inc have "CurrentIndex it' = j"
        by (auto simp: DataIterator_inc_def Next_def split: sum.splits)
      with b ne show ?thesis by (auto simp: DataIterator_ne_def)
    qed
  qed
qed

declare iterate.simps [simp del]

definition DataArray_iterate :: "ptr \<Rightarrow> DataArray \<Rightarrow> fault + DataIteratorBase list" where
  "DataArray_iterate this a =
     (case DataArray_begin this a of Inl f \<Rightarrow> Inl f | Inr it \<Rightarrow> iterate a it)"

subsection \<open>Allocation and release\<close>

text \<open>
  The header declares no routine that allocates or releases a datum; the
  specification describes them as \<open>Acquire\<close> and \<open>Release\<close>. In its terms the
  resume cursor is \<^verbatim>\<open>NextIndex\<close>, the watermark is \<^verbatim>\<open>FirstUnallocated\<close>, the
  active-count is \<^verbatim>\<open>ActualCount\<close> and the generation counter is \<^verbatim>\<open>NextSalt\<close>.
\<close>

text \<open>
  Modelled from the spec: the step of the generation counter, which Acquire
  "increments [...] (wrapping at 16 bits, skipping the value 0 which denotes empty)".
\<close>

definition next_salt :: "TSalt \<Rightarrow> TSalt" where
  "next_salt s = (if s + 1 = 0 then 1 else s + 1)"

text \<open>
  Modelled from the spec: the scan for a free slot from index \<open>i\<close> up to the
  capacity. Acquire "finds the lowest-index free slot at or after the resume cursor
  (scanning the bitmap) [...] but never scanning past the first unallocated watermark
  unnecessarily": "all slots at or beyond this index are guaranteed free", so the
  scan takes a slot at or beyond the watermark without reading the bitmap.
\<close>

function find_free :: "DataArray \<Rightarrow> int \<Rightarrow> fault + int option" where
  "find_free a i =
     (if i < MaxCount a then
        if FirstUnallocated a \<le> i then Inr (Some i)
        else
          (case read_active a i of
             Inl f \<Rightarrow> Inl f
           | Inr b \<Rightarrow> if b then find_free a (i + 1) else Inr (Some i))
      else Inr None)"
  by pat_completeness auto
termination
  by (relation "measure (\<lambda>(a, i). nat (MaxCount a - i))") auto

declare find_free.simps [simp del]

text \<open>
  Modelled from the spec: the slot Acquire allocates, if any. The scan starts at the
  resume cursor, "falling back to a scan from the start if the cursor overruns
  capacity".
\<close>

definition Acquire_slot :: "DataArray \<Rightarrow> fault + int option" where
  "Acquire_slot a =
     (case find_free a (NextIndex a) of
        Inl f \<Rightarrow> Inl f
      | Inr (Some i) \<Rightarrow> Inr (Some i)
      | Inr None \<Rightarrow> find_free a 0)"

text \<open>
  Modelled from the spec: Acquire "fails by returning Null() if no free slot exists
  (capacity exhausted). On success: marks the slot's bitmap bit, increments
  active-count, increments the Store's generation counter (wrapping at 16 bits,
  skipping the value 0 which denotes empty), stamps the slot's generation field with
  the new value, advances the resume cursor past the allocated index, and returns
  Construct(generation, index)." The watermark is raised past the allocated index so
  that its guarantee ("all slots at or beyond this index are guaranteed free") keeps
  holding.
\<close>

definition Acquire :: "DataArray \<Rightarrow> fault + (DatumIndex \<times> DataArray)" where
  "Acquire a =
     (case Acquire_slot a of
        Inl f \<Rightarrow> Inl f
      | Inr None \<Rightarrow> Inr (Null, a)
      | Inr (Some i) \<Rightarrow>
          (case write_active a i True of
             Inl f \<Rightarrow> Inl f
           | Inr a1 \<Rightarrow>
               (case write_datum a1 i (DatumBase (next_salt (NextSalt a))) of
                  Inl f \<Rightarrow> Inl f
                | Inr a2 \<Rightarrow>
                    Inr (DatumIndex_make (next_salt (NextSalt a)) (word_of_int i),
                         a2\<lparr>NextIndex := i + 1,
                            FirstUnallocated := max (FirstUnallocated a) (i + 1),
                            ActualCount := ActualCount a + 1,
                            NextSalt := next_salt (NextSalt a)\<rparr>))))"

text \<open>
  Modelled from the spec: Release is a "no-op if h is Null() or already stale
  (generation mismatch)", and
  likewise for a handle "whose index is out of range"; a handle is invalid/stale when
  its "generation is 0 or [the] slot's stored generation differs from the handle's
  generation". "Otherwise clears the slot's generation field to 0, clears the bitmap
  bit, decrements active-count, and rewinds the resume cursor to
  min(cursor, slotIndex)."
\<close>

definition Release :: "DataArray \<Rightarrow> DatumIndex \<Rightarrow> fault + DataArray" where
  "Release a h =
     (if DatumIndex_eq h Null then Inr a
      else if \<not> uint (Index h) < MaxCount a then Inr a
      else
        (case read_datum a (uint (Index h)) of
           Inl f \<Rightarrow> Inl f
         | Inr d \<Rightarrow>
             if GetSalt d \<noteq> Salt h \<or> IsNull d then Inr a
             else
               (case write_datum a (uint (Index h)) (DatumBase 0) of
                  Inl f \<Rightarrow> Inl f
                | Inr a1 \<Rightarrow>
                    (case write_active a1 (uint (Index h)) False of
                       Inl f \<Rightarrow> Inl f
                     | Inr a2 \<Rightarrow>
                         Inr (a2\<lparr>NextIndex := min (NextIndex a) (uint (Index h)),
                                 ActualCount := ActualCount a - 1\<rparr>)))))"

text \<open>
  \<open>acquire_calls k a\<close> performs \<open>k\<close> calls of Acquire in a row, with no Release in
  between, and returns the number of calls that succeeded (found a slot) together
  with the resulting array.
\<close>

fun acquire_calls :: "nat \<Rightarrow> DataArray \<Rightarrow> fault + (nat \<times> DataArray)" where
  "acquire_calls 0 a = Inr (0, a)"
| "acquire_calls (Suc k) a =
     (case Acquire_slot a of
        Inl f \<Rightarrow> Inl f
      | Inr r \<Rightarrow>
          (case Acquire a of
             Inl f \<Rightarrow> Inl f
           | Inr (h, a') \<Rightarrow>
               (case acquire_calls k a' of
                  Inl f \<Rightarrow> Inl f
                | Inr (n, a'') \<Rightarrow> Inr ((if r = None then n else Suc n), a''))))"

subsection \<open>Well-formed arrays\<close>

text \<open>
  A slot is active when its bit in the bit array is set. An array is well formed when
  its two blocks are allocated for its capacity, the capacity fits the 16-bit index
  field of a handle, the cursor and the watermark are not negative, no slot at or
  beyond the watermark is active, and (the invariant of the specification) "for every
  index i, bit i set in the bitmap iff slot i's generation field is nonzero". A fresh
  array is a well-formed array with no active slot and active-count zero, as it is
  after its creation.
\<close>

definition active :: "DataArray \<Rightarrow> int \<Rightarrow> bool" where
  "active a i = bit (ActiveWords a ! nat (i div 32)) (nat (i mod 32))"

definition well_formed :: "DataArray \<Rightarrow> bool" where
  "well_formed a =
     (datums_allocated a \<and> active_allocated a
      \<and> 0 \<le> MaxCount a \<and> MaxCount a \<le> 0x10000
      \<and> 0 \<le> NextIndex a \<and> 0 \<le> FirstUnallocated a
      \<and> (\<forall>i \<in> {FirstUnallocated a..<MaxCount a}. \<not> active a i)
      \<and> (\<forall>i \<in> {0..<MaxCount a}. active a i = (\<not> IsNull (Datums a ! nat i))))"

definition fresh :: "DataArray \<Rightarrow> bool" where
  "fresh a =
     (well_formed a \<and> ActualCount a = 0 \<and> (\<forall>i \<in> {0..<MaxCount a}. \<not> active a i))"

text \<open>
  The active slots from index \<open>i\<close> on, in increasing order, and the iterator state
  positioned on slot \<open>j\<close> of the array at address \<open>p\<close>: what an iteration is
  expected to visit.
\<close>

definition live_from :: "DataArray \<Rightarrow> int \<Rightarrow> int list" where
  "live_from a i = filter (active a) [i..MaxCount a - 1]"

definition at_slot :: "ptr \<Rightarrow> DataArray \<Rightarrow> int \<Rightarrow> DataIteratorBase" where
  "at_slot p a j =
     \<lparr>Array = p,
      CurrentDatumIndex = DatumIndex_make (GetSalt (Datums a ! nat j)) (word_of_int j),
      CurrentIndex = j\<rparr>"

subsection \<open>Example arrays\<close>

text \<open>
  A three-slot array whose slot 1 holds a datum with salt 2, and the same array
  right after its creation, with no datum.
\<close>

definition players :: DataArray where
  "players =
     \<lparr>Name = ''players'', MaxCount = 3, DatumSize = 16, Alignment = 0, IsValid = True,
      Flags = 0, Signature = 0x64407440, Allocator = 0, NextIndex = 2,
      FirstUnallocated = 2, ActualCount = 1, NextSalt = 2, AltNextSalt = 0,
      Data = 0x1000, ActiveIndices = 0x2000, HeaderSize = 0x54, TotalSize = 0x88,
      Datums = [DatumBase 0, DatumBase 2, DatumBase 0], ActiveWords = [2]\<rparr>"

definition empty_players :: DataArray where
  "empty_players =
     \<lparr>Name = ''players'', MaxCount = 3, DatumSize = 16, Alignment = 0, IsValid = True,
      Flags = 0, Signature = 0x64407440, Allocator = 0, NextIndex = 0,
      FirstUnallocated = 0, ActualCount = 0, NextSalt = 0, AltNextSalt = 0,
      Data = 0x1000, ActiveIndices = 0x2000, HeaderSize = 0x54, TotalSize = 0x88,
      Datums = [DatumBase 0, DatumBase 0, DatumBase 0], ActiveWords = [0]\<rparr>"

section \<open>Handles\<close>

lemma mask_16_numeral: "(0xFFFF :: 32 word) = mask 16"
  by (simp add: mask_eq_exp_minus_1)

lemma Salt_make: "Salt (DatumIndex_make s i) = s"
  unfolding Salt_def DatumIndex_make_def
  by (rule bit_word_eqI) (auto simp: bit_simps dest: bit_imp_le_length)

lemma Index_make: "Index (DatumIndex_make s i) = i"
  unfolding Index_def DatumIndex_make_def mask_16_numeral
  by (rule bit_word_eqI) (auto simp: bit_simps dest: bit_imp_le_length)

lemma unat_Salt: "unat (Salt d) = unat (Handle d) div 65536"
proof -
  have "unat (Handle d) < 2 ^ 32"
    using unsigned_less [of "Handle d"] by simp
  then have "unat (Handle d) div 65536 < 65536"
    by simp
  then show ?thesis
    unfolding Salt_def
    by (simp add: unsigned_ucast_eq unat_drop_bit_eq drop_bit_eq_div take_bit_eq_mod
        unat_div_distrib)
qed

lemma unat_Index: "unat (Index d) = unat (Handle d) mod 65536"
  unfolding Index_def mask_16_numeral
  by (simp add: unsigned_ucast_eq take_bit_eq_mod unsigned_take_bit_eq unat_mod_distrib
      flip: take_bit_eq_mask)

lemma DatumIndex_eq_iff: "DatumIndex_eq a b \<longleftrightarrow> a = b"
  by (cases a, cases b) (simp add: DatumIndex_eq_def)

lemma make_all_ones: "DatumIndex_make 0xFFFF 0xFFFF = Null"
  by (simp add: DatumIndex_make_def Null_def)

text \<open>
  C3. Packing is the inverse of the accessors: for every 16-bit salt \<open>s\<close> and 16-bit
  index \<open>i\<close>, the handle built by the (salt, index) constructor has \<open>Salt = s\<close> and
  \<open>Index = i\<close>; and the two accessors are functions of the 32-bit value alone, the
  upper half (the value shifted right by 16, i.e. divided by \<open>2^16\<close>) and the lower
  half (the value masked with \<open>0xFFFF\<close>, i.e. modulo \<open>2^16\<close>).
\<close>

theorem DatumIndex_pack_unpack:
  "Salt (DatumIndex_make s i) = s
   \<and> Index (DatumIndex_make s i) = i
   \<and> unat (Salt d) = unat (Handle d) div 2 ^ 16
   \<and> unat (Index d) = unat (Handle d) mod 2 ^ 16"
  by (simp add: Salt_make Index_make unat_Salt unat_Index)

text \<open>
  C5. The null handle is the all-ones 32-bit value \<open>0xFFFFFFFF\<close>: the default
  constructor and the \<open>Null\<close> constant both equal it, and \<^verbatim>\<open>operator==\<close> /
  \<^verbatim>\<open>operator!=\<close> compare the 32-bit values bit by bit.
\<close>

theorem Null_is_all_ones:
  "DatumIndex_default = DatumIndex 0xFFFFFFFF
   \<and> Null = DatumIndex 0xFFFFFFFF
   \<and> Handle Null = NOT 0
   \<and> DatumIndex_eq a b = (\<forall>n. bit (Handle a) n = bit (Handle b) n)
   \<and> DatumIndex_ne a b = (\<exists>n. bit (Handle a) n \<noteq> bit (Handle b) n)"
proof -
  have "(Handle a = Handle b) = (\<forall>n. bit (Handle a) n = bit (Handle b) n)"
    by (auto intro: bit_eqI)
  then show ?thesis
    by (simp add: DatumIndex_default_def Null_def DatumIndex_eq_def DatumIndex_ne_def)
qed

text \<open>
  C8. Converting a handle to \<^verbatim>\<open>bool\<close> yields true iff the handle is not equal to the
  null sentinel; in particular the default-constructed handle converts to false.
\<close>

theorem DatumIndex_to_bool_iff:
  "DatumIndex_to_bool h = (h \<noteq> Null) \<and> DatumIndex_to_bool DatumIndex_default = False"
  by (simp add: DatumIndex_to_bool_def DatumIndex_ne_def DatumIndex_eq_iff
      DatumIndex_default_def Null_def)

text \<open>
  C10. The packing constructor can produce the null sentinel: the handle built from
  salt \<open>0xFFFF\<close> and index \<open>0xFFFF\<close> is bitwise equal to \<open>Null\<close> and converts to
  false.
\<close>

theorem make_can_produce_Null:
  "DatumIndex_make 0xFFFF 0xFFFF = Null
   \<and> Handle (DatumIndex_make 0xFFFF 0xFFFF) = Handle Null
   \<and> DatumIndex_eq (DatumIndex_make 0xFFFF 0xFFFF) Null
   \<and> DatumIndex_to_bool (DatumIndex_make 0xFFFF 0xFFFF) = False"
  by (simp add: make_all_ones DatumIndex_to_bool_def DatumIndex_ne_def DatumIndex_eq_def)

section \<open>Unchecked addressing\<close>

lemma uint_ucast_16_32: "uint (ucast (w :: 16 word) :: 32 word) = uint w"
  by (simp add: uint_up_ucast is_up)

lemma uint_GetAddress:
  "uint (GetAddress a h) = (uint (Data a) + uint (Index h) * DatumSize a) mod 2 ^ 32"
  unfolding GetAddress_def
  by (simp add: uint_word_ariths uint_word_of_int mod_simps take_bit_eq_mod uint_ucast_16_32)

text \<open>
  C6. For every handle \<open>h\<close> the unchecked accessor returns the address
  \<open>Data + Index h * DatumSize\<close> (as a 32-bit address). It performs no bounds or
  generation check: the result is the same whatever the capacity, the stored datums,
  the bit array and the salt of the handle are, so it is computed also when
  \<open>Index h \<ge> MaxCount\<close> or the slot is free.
\<close>

theorem GetAddress_unchecked:
  "uint (GetAddress a h) = (uint (Data a) + uint (Index h) * DatumSize a) mod 2 ^ 32
   \<and> GetAddress (a\<lparr>MaxCount := m, Datums := ds, ActiveWords := ws\<rparr>)
        (DatumIndex_make s (Index h)) = GetAddress a h"
  by (simp add: uint_GetAddress) (simp add: GetAddress_def Index_make)

section \<open>Iterators\<close>

text \<open>
  C9. A freshly constructed iterator is positioned before the first slot: its current
  index is \<open>-1\<close> and its current datum handle is the null handle, for every array it
  is bound to.
\<close>

theorem DataIteratorBase_new_position:
  "CurrentIndex (DataIteratorBase_new data) = - 1
   \<and> CurrentDatumIndex (DataIteratorBase_new data) = Null
   \<and> Array (DataIteratorBase_new data) = data"
  by (simp add: DataIteratorBase_new_def)



section \<open>Checked lookup and release\<close>

lemma Get_in_bounds:
  assumes "datums_allocated a"
  shows "Get a h =
           (if uint (Index h) < MaxCount a
               \<and> GetSalt (Datums a ! unat (Index h)) = Salt h
               \<and> GetSalt (Datums a ! unat (Index h)) \<noteq> 0
            then Inr (Some (GetAddress a h)) else Inr None)"
  using assms
  by (auto simp: Get_def read_datum_def datums_allocated_def IsNull_def GetSalt_def)

text \<open>
  C1. On an array whose datum block holds \<^verbatim>\<open>MaxCount\<close> slots, the checked lookup
  returns a pointer to the datum (the address \<^verbatim>\<open>GetAddress\<close> computes) iff
  \<open>Index h < MaxCount\<close> and the stored salt of slot \<open>Index h\<close> equals \<open>Salt h\<close> and
  is nonzero; for every other handle it returns null, and it never reads outside
  the block (the result is never the fault \<open>OutOfBounds\<close>).
\<close>

theorem Get_checked:
  assumes "datums_allocated a"
  shows "Get a h =
           (if uint (Index h) < MaxCount a
               \<and> GetSalt (Datums a ! unat (Index h)) = Salt h
               \<and> GetSalt (Datums a ! unat (Index h)) \<noteq> 0
            then Inr (Some (GetAddress a h)) else Inr None)"
  using assms by (rule Get_in_bounds)

theorem Get_checked_witness:
  "datums_allocated players
   \<and> Get players (DatumIndex_make 2 1) = Inr (Some 0x1010)
   \<and> Get players (DatumIndex_make 1 1) = Inr None
   \<and> Get players (DatumIndex_make 0 0) = Inr None
   \<and> Get players (DatumIndex_make 2 3) = Inr None"
proof -
  have h: "datums_allocated players"
    by (simp add: datums_allocated_def players_def)
  show ?thesis
    using h Get_checked [OF h, of "DatumIndex_make 2 1"] Get_checked [OF h, of "DatumIndex_make 1 1"]
      Get_checked [OF h, of "DatumIndex_make 0 0"] Get_checked [OF h, of "DatumIndex_make 2 3"]
    by (simp add: Index_make Salt_make players_def GetAddress_def GetSalt_def)
qed


text \<open>
  C4. Releasing the null handle, a handle whose index is out of range, or a handle
  whose salt no longer matches the stored salt of its slot returns the array
  unchanged: header fields (cursor, watermark, active-count), every stored salt and
  the bit array are all the same.
\<close>

theorem Release_bad_handle:
  "(DatumIndex_eq h Null \<longrightarrow> Release a h = Inr a)
   \<and> (MaxCount a \<le> uint (Index h) \<longrightarrow> Release a h = Inr a)
   \<and> (datums_allocated a \<and> GetSalt (Datums a ! unat (Index h)) \<noteq> Salt h
        \<longrightarrow> Release a h = Inr a)"
  by (auto simp: Release_def read_datum_def datums_allocated_def)

theorem Release_bad_handle_witness:
  "DatumIndex_eq Null Null \<and> Release players Null = Inr players
   \<and> MaxCount players \<le> uint (Index (DatumIndex_make 2 3))
   \<and> Release players (DatumIndex_make 2 3) = Inr players
   \<and> datums_allocated players
   \<and> GetSalt (Datums players ! unat (Index (DatumIndex_make 1 1))) \<noteq> Salt (DatumIndex_make 1 1)
   \<and> Release players (DatumIndex_make 1 1) = Inr players"
proof -
  have 1: "DatumIndex_eq Null Null" by (simp add: DatumIndex_eq_def)
  have 2: "MaxCount players \<le> uint (Index (DatumIndex_make 2 3))"
    by (simp add: Index_make players_def)
  have 3: "datums_allocated players
     \<and> GetSalt (Datums players ! unat (Index (DatumIndex_make 1 1))) \<noteq> Salt (DatumIndex_make 1 1)"
    by (simp add: datums_allocated_def Index_make Salt_make players_def GetSalt_def)
  show ?thesis
    using 1 2 3 Release_bad_handle [of Null players]
      Release_bad_handle [of "DatumIndex_make 2 3" players]
      Release_bad_handle [of "DatumIndex_make 1 1" players]
    by blast
qed

section \<open>Iteration over the active slots\<close>

lemma live_from_step:
  "i < MaxCount a \<Longrightarrow>
     live_from a i = (if active a i then i # live_from a (i + 1) else live_from a (i + 1))"
  by (simp add: live_from_def upto_rec1 [of i "MaxCount a - 1"])

lemma live_from_done: "\<not> i < MaxCount a \<Longrightarrow> live_from a i = []"
  by (simp add: live_from_def)

lemma set_live_from: "set (live_from a i) = {j. i \<le> j \<and> j < MaxCount a \<and> active a j}"
  by (auto simp: live_from_def)

lemma distinct_live_from: "distinct (live_from a i)"
  by (simp add: live_from_def)

lemma sorted_live_from: "sorted_wrt (<) (live_from a i)"
  by (simp add: live_from_def sorted_wrt_filter)

lemma read_active_in_range:
  "active_allocated a \<Longrightarrow> 0 \<le> i \<Longrightarrow> i < MaxCount a \<Longrightarrow> read_active a i = Inr (active a i)"
  by (auto simp: read_active_def active_allocated_def active_def)

lemma read_datum_in_range:
  "datums_allocated a \<Longrightarrow> 0 \<le> i \<Longrightarrow> i < MaxCount a \<Longrightarrow> read_datum a i = Inr (Datums a ! nat i)"
  by (auto simp: read_datum_def datums_allocated_def)

lemma next_active_live_from:
  "active_allocated a \<Longrightarrow> 0 \<le> i \<Longrightarrow>
     next_active a i = Inr (case live_from a i of [] \<Rightarrow> None | j # _ \<Rightarrow> Some j)"
proof (induction "nat (MaxCount a - i)" arbitrary: i)
  case 0
  then have "\<not> i < MaxCount a" by simp
  then show ?case by (simp add: next_active.simps [of a i] live_from_done)
next
  case (Suc n)
  then have lt: "i < MaxCount a" by simp
  show ?case
  proof (cases "active a i")
    case True
    with lt Suc.prems show ?thesis
      by (simp add: next_active.simps [of a i] read_active_in_range live_from_step)
  next
    case False
    have "n = nat (MaxCount a - (i + 1))" using Suc.hyps(2) by simp
    from Suc.hyps(1) [OF this] Suc.prems
    have "next_active a (i + 1) = Inr (case live_from a (i + 1) of [] \<Rightarrow> None | j # _ \<Rightarrow> Some j)"
      by simp
    with False lt Suc.prems show ?thesis
      by (simp add: next_active.simps [of a i] read_active_in_range live_from_step)
  qed
qed

lemma live_from_Cons:
  "live_from a i = j # rest \<Longrightarrow> i \<le> j \<and> j < MaxCount a \<and> active a j \<and> rest = live_from a (j + 1)"
proof (induction "nat (MaxCount a - i)" arbitrary: i)
  case 0
  then have "\<not> i < MaxCount a" by simp
  with 0 show ?case by (simp add: live_from_done)
next
  case (Suc n)
  then have lt: "i < MaxCount a" by simp
  show ?case
  proof (cases "active a i")
    case True
    with lt Suc.prems show ?thesis by (auto simp: live_from_step)
  next
    case False
    have n: "n = nat (MaxCount a - (i + 1))" using Suc.hyps(2) by simp
    from False lt Suc.prems have "live_from a (i + 1) = j # rest" by (simp add: live_from_step)
    from Suc.hyps(1) [OF n this] show ?thesis by simp
  qed
qed


lemma Next_live_from:
  assumes "active_allocated a" "datums_allocated a" "- 1 \<le> CurrentIndex it"
  shows "Next a it =
     (case live_from a (CurrentIndex it + 1) of
        [] \<Rightarrow> Inr (None, DataArray_end (Array it) a)
      | j # _ \<Rightarrow> Inr (Some (Data a + word_of_int (j * DatumSize a)), at_slot (Array it) a j))"
proof (cases "live_from a (CurrentIndex it + 1)")
  case Nil
  with assms show ?thesis
    by (simp add: Next_def next_active_live_from DataArray_end_def DataIteratorBase_new_def)
next
  case (Cons j rest)
  with live_from_Cons [OF Cons] assms show ?thesis
    by (simp add: Next_def next_active_live_from read_datum_in_range at_slot_def)
qed

lemma iterate_end: "iterate a (DataArray_end p a) = Inr []"
  by (subst iterate.simps)
    (simp add: DataIterator_ne_def DataIterator_eq_def DatumIndex_eq_def DataArray_end_def
      DataIteratorBase_new_def)

lemma iterate_live_from:
  assumes "active_allocated a" "datums_allocated a"
  shows "live_from a (CurrentIndex it + 1) = xs \<Longrightarrow> - 1 \<le> CurrentIndex it \<Longrightarrow>
         CurrentIndex it < MaxCount a \<Longrightarrow>
         iterate a it = Inr (it # map (at_slot (Array it) a) xs)"
proof (induction xs arbitrary: it)
  case Nil
  have ne: "DataIterator_ne it (DataArray_end (Array it) a)"
    using Nil.prems by (auto simp: DataIterator_ne_def DataIterator_eq_def DataArray_end_def)
  have "Next a it = Inr (None, DataArray_end (Array it) a)"
    using Nil.prems assms by (simp add: Next_live_from)
  with ne show ?case
    by (simp add: iterate.simps [of a it] DataIterator_inc_def iterate_end)
next
  case (Cons j rest)
  have ne: "DataIterator_ne it (DataArray_end (Array it) a)"
    using Cons.prems by (auto simp: DataIterator_ne_def DataIterator_eq_def DataArray_end_def)
  from live_from_Cons [OF Cons.prems(1)]
  have j: "CurrentIndex it + 1 \<le> j" "j < MaxCount a" "rest = live_from a (j + 1)" by simp_all
  have nx: "Next a it = Inr (Some (Data a + word_of_int (j * DatumSize a)), at_slot (Array it) a j)"
    using Cons.prems assms by (simp add: Next_live_from)
  have "iterate a (at_slot (Array it) a j)
          = Inr (at_slot (Array it) a j # map (at_slot (Array (at_slot (Array it) a j)) a) rest)"
    using j Cons.prems by (intro Cons.IH) (simp_all add: at_slot_def)
  with ne nx show ?case
    by (simp add: iterate.simps [of a it] DataIterator_inc_def at_slot_def)
qed

lemma DataArray_iterate_live_from:
  assumes "active_allocated a" "datums_allocated a"
  shows "DataArray_iterate this a = Inr (map (at_slot this a) (live_from a 0))"
proof (cases "live_from a 0")
  case Nil
  with assms show ?thesis
    by (simp add: DataArray_iterate_def DataArray_begin_def Next_live_from
        DataIteratorBase_new_def iterate_end)
next
  case (Cons j rest)
  from live_from_Cons [OF Cons]
  have j: "0 \<le> j" "j < MaxCount a" "rest = live_from a (j + 1)" by simp_all
  have "iterate a (at_slot this a j)
          = Inr (at_slot this a j # map (at_slot (Array (at_slot this a j)) a) rest)"
    using j by (intro iterate_live_from [OF assms]) (simp_all add: at_slot_def)
  with Cons assms show ?thesis
    by (simp add: DataArray_iterate_def DataArray_begin_def Next_live_from
        DataIteratorBase_new_def at_slot_def)
qed

section \<open>Allocation keeps the array well formed\<close>

lemma well_formed_unfold:
  "well_formed a =
     (datums_allocated a \<and> active_allocated a
      \<and> 0 \<le> MaxCount a \<and> MaxCount a \<le> 0x10000
      \<and> 0 \<le> NextIndex a \<and> 0 \<le> FirstUnallocated a
      \<and> (\<forall>i. FirstUnallocated a \<le> i \<and> i < MaxCount a \<longrightarrow> \<not> active a i)
      \<and> (\<forall>i. 0 \<le> i \<and> i < MaxCount a \<longrightarrow> active a i = (\<not> IsNull (Datums a ! nat i))))"
  unfolding well_formed_def by (simp add: Ball_def)

lemma fresh_unfold:
  "fresh a =
     (well_formed a \<and> ActualCount a = 0
      \<and> (\<forall>i. 0 \<le> i \<and> i < MaxCount a \<longrightarrow> \<not> active a i))"
  unfolding fresh_def by (simp add: Ball_def)

lemma div_mod_32_eq: "(j div 32 = i div 32 \<and> j mod 32 = i mod 32) = (j = (i::int))"
  by (metis div_mult_mod_eq)

lemma active_write_set:
  assumes "0 \<le> i" "i div 32 < int (length (ActiveWords a))" "0 \<le> j"
    "j div 32 < int (length (ActiveWords a))"
    "write_active a i True = Inr a'"
  shows "active a' j = (j = i \<or> active a j)"
proof (cases "j div 32 = i div 32")
  case True
  have "nat (j mod 32) < 32" by simp
  have eq: "(nat (i mod 32) = nat (j mod 32)) = (j = i)"
    using True div_mod_32_eq [of j i] by auto
  from assms True show ?thesis
    by (auto simp: write_active_def active_def bit_set_bit_iff eq)
next
  case False
  then have "j \<noteq> i" by auto
  moreover from False assms have "nat (i div 32) \<noteq> nat (j div 32)" by simp
  ultimately show ?thesis using assms
    by (auto simp: write_active_def active_def)
qed

lemma next_salt_nonzero: "next_salt s \<noteq> 0"
  by (simp add: next_salt_def)

lemma find_free_ok:
  "well_formed a \<Longrightarrow> 0 \<le> i \<Longrightarrow>
     \<exists>r. find_free a i = Inr r \<and> (\<forall>j. r = Some j \<longrightarrow> i \<le> j \<and> j < MaxCount a \<and> \<not> active a j)"
proof (induction "nat (MaxCount a - i)" arbitrary: i)
  case 0
  then have "\<not> i < MaxCount a" by simp
  then show ?case by (simp add: find_free.simps [of a i])
next
  case (Suc n)
  then have lt: "i < MaxCount a" by simp
  from Suc.prems have alloc: "active_allocated a" by (simp add: well_formed_unfold)
  show ?case
  proof (cases "FirstUnallocated a \<le> i")
    case True
    with lt Suc.prems have "\<not> active a i" by (simp add: well_formed_unfold)
    with True lt show ?thesis by (simp add: find_free.simps [of a i])
  next
    case wm: False
    show ?thesis
    proof (cases "active a i")
      case False
      with wm lt alloc Suc.prems show ?thesis
        by (simp add: find_free.simps [of a i] read_active_in_range)
    next
      case True
      have n: "n = nat (MaxCount a - (i + 1))" using Suc.hyps(2) by simp
      from Suc.hyps(1) [OF n Suc.prems(1)] Suc.prems(2)
      obtain r where r: "find_free a (i + 1) = Inr r"
        "\<forall>j. r = Some j \<longrightarrow> i + 1 \<le> j \<and> j < MaxCount a \<and> \<not> active a j"
        by auto
      from True wm lt alloc Suc.prems r(1) have "find_free a i = Inr r"
        by (simp add: find_free.simps [of a i] read_active_in_range)
      with r(2) show ?thesis by auto
    qed
  qed
qed

lemma Acquire_slot_ok:
  assumes "well_formed a"
  shows "\<exists>r. Acquire_slot a = Inr r
            \<and> (\<forall>j. r = Some j \<longrightarrow> 0 \<le> j \<and> j < MaxCount a \<and> \<not> active a j)"
proof -
  from assms have c: "0 \<le> NextIndex a" by (simp add: well_formed_unfold)
  from find_free_ok [OF assms c] obtain r where r: "find_free a (NextIndex a) = Inr r"
    "\<forall>j. r = Some j \<longrightarrow> NextIndex a \<le> j \<and> j < MaxCount a \<and> \<not> active a j"
    by auto
  from find_free_ok [OF assms, of 0] obtain r0 where r0: "find_free a 0 = Inr r0"
    "\<forall>j. r0 = Some j \<longrightarrow> 0 \<le> j \<and> j < MaxCount a \<and> \<not> active a j"
    by auto
  show ?thesis
  proof (cases r)
    case None
    with r r0 show ?thesis by (simp add: Acquire_slot_def)
  next
    case (Some j)
    with r c show ?thesis by (auto simp: Acquire_slot_def)
  qed
qed

lemma Acquire_exhausted: "Acquire_slot a = Inr None \<Longrightarrow> Acquire a = Inr (Null, a)"
  by (simp add: Acquire_def)

lemma active_cong: "ActiveWords a = ActiveWords b \<Longrightarrow> active a j = active b j"
  by (simp add: active_def)

lemma Acquire_success:
  assumes wf: "well_formed a" and slot: "Acquire_slot a = Inr (Some i)"
    and i: "0 \<le> i" "i < MaxCount a" "\<not> active a i"
  shows "\<exists>h a'. Acquire a = Inr (h, a') \<and> well_formed a' \<and> MaxCount a' = MaxCount a
           \<and> ActualCount a' = ActualCount a + 1
           \<and> (\<forall>j. 0 \<le> j \<and> j < MaxCount a \<longrightarrow> active a' j = (j = i \<or> active a j))"
proof -
  from wf have al: "active_allocated a" and dl: "datums_allocated a"
    and cap: "0 \<le> MaxCount a" "MaxCount a \<le> 0x10000"
    and fu: "0 \<le> FirstUnallocated a"
    and tail: "\<forall>j. FirstUnallocated a \<le> j \<and> j < MaxCount a \<longrightarrow> \<not> active a j"
    and inv: "\<forall>j. 0 \<le> j \<and> j < MaxCount a \<longrightarrow> active a j = (\<not> IsNull (Datums a ! nat j))"
    by (simp_all add: well_formed_unfold)
  have inw: "\<And>j. 0 \<le> j \<Longrightarrow> j < MaxCount a \<Longrightarrow> j div 32 < int (length (ActiveWords a))"
    using al by (auto simp: active_allocated_def)
  have ind: "\<And>j. 0 \<le> j \<Longrightarrow> j < MaxCount a \<Longrightarrow> j < int (length (Datums a))"
    using dl by (auto simp: datums_allocated_def)
  obtain a1 where w1: "write_active a i True = Inr a1"
    using i inw [of i] by (simp add: write_active_def)
  have a1: "Datums a1 = Datums a" "length (ActiveWords a1) = length (ActiveWords a)"
    using w1 by (auto simp: write_active_def split: if_splits)
  have act1: "\<And>j. 0 \<le> j \<Longrightarrow> j < MaxCount a \<Longrightarrow> active a1 j = (j = i \<or> active a j)"
    using active_write_set [OF i(1) inw [OF i(1,2)] _ _ w1] inw by simp
  define s where "s = next_salt (NextSalt a)"
  define a2 where "a2 = a1\<lparr>Datums := (Datums a)[nat i := DatumBase s]\<rparr>"
  have w2: "write_datum a1 i (DatumBase s) = Inr a2"
    using i ind [of i] a1 by (simp add: write_datum_def a2_def)
  define a' where "a' = a2\<lparr>NextIndex := i + 1,
                            FirstUnallocated := max (FirstUnallocated a) (i + 1),
                            ActualCount := ActualCount a + 1,
                            NextSalt := s\<rparr>"
  have acq: "Acquire a = Inr (DatumIndex_make s (word_of_int i), a')"
    using slot w1 w2 by (simp add: Acquire_def s_def a'_def)
  have mc: "MaxCount a' = MaxCount a"
    using w1 by (auto simp: a'_def a2_def write_active_def split: if_splits)
  have act: "\<And>j. 0 \<le> j \<Longrightarrow> j < MaxCount a \<Longrightarrow> active a' j = (j = i \<or> active a j)"
    using act1 active_cong [of a' a1] by (simp add: a'_def a2_def)
  have dat: "Datums a' = (Datums a)[nat i := DatumBase s]"
    by (simp add: a'_def a2_def)
  have lw: "length (ActiveWords a') = length (ActiveWords a)"
    using a1 by (simp add: a'_def a2_def)
  have s0: "s \<noteq> 0" by (simp add: s_def next_salt_def)
  have inv': "\<And>j. 0 \<le> j \<Longrightarrow> j < MaxCount a \<Longrightarrow> active a' j = (\<not> IsNull (Datums a' ! nat j))"
  proof -
    fix j assume j: "0 \<le> j" "j < MaxCount a"
    show "active a' j = (\<not> IsNull (Datums a' ! nat j))"
    proof (cases "j = i")
      case True
      with j ind [of i] act [of j] s0 show ?thesis by (simp add: dat IsNull_def)
    next
      case False
      with j i have "nat i \<noteq> nat j" by simp
      with False j act [of j] inv show ?thesis by (simp add: dat)
    qed
  qed
  have wf': "well_formed a'"
    unfolding well_formed_unfold
  proof (intro conjI allI impI)
    show "datums_allocated a'" using dl mc by (simp add: datums_allocated_def dat)
    show "active_allocated a'" using al mc by (simp add: active_allocated_def lw)
    show "0 \<le> MaxCount a'" "MaxCount a' \<le> 0x10000" using cap mc by simp_all
    show "0 \<le> NextIndex a'" using i by (simp add: a'_def)
    show "0 \<le> FirstUnallocated a'" using fu by (simp add: a'_def)
  next
    fix j assume "FirstUnallocated a' \<le> j \<and> j < MaxCount a'"
    then have j: "FirstUnallocated a \<le> j" "i + 1 \<le> j" "j < MaxCount a"
      using mc by (simp_all add: a'_def)
    with i act [of j] tail show "\<not> active a' j" by simp
  next
    fix j assume "0 \<le> j \<and> j < MaxCount a'"
    with mc inv' [of j] show "active a' j = (\<not> IsNull (Datums a' ! nat j))" by simp
  qed
  have "ActualCount a' = ActualCount a + 1" by (simp add: a'_def)
  with acq wf' mc act show ?thesis by blast
qed

lemma live_from_grows:
  assumes "MaxCount a' = MaxCount a" "0 \<le> i" "i < MaxCount a" "\<not> active a i"
    "\<forall>j. 0 \<le> j \<and> j < MaxCount a \<longrightarrow> active a' j = (j = i \<or> active a j)"
  shows "length (live_from a' 0) = Suc (length (live_from a 0))"
proof -
  have "set (live_from a' 0) = insert i (set (live_from a 0))"
    using assms by (auto simp: set_live_from)
  moreover have "i \<notin> set (live_from a 0)"
    using assms by (simp add: set_live_from)
  ultimately have "card (set (live_from a' 0)) = Suc (card (set (live_from a 0)))"
    by simp
  then show ?thesis
    by (simp add: distinct_card distinct_live_from)
qed

lemma acquire_calls_ok:
  "well_formed a \<Longrightarrow>
     \<exists>n a'. acquire_calls k a = Inr (n, a') \<and> well_formed a' \<and> MaxCount a' = MaxCount a
       \<and> length (live_from a' 0) = length (live_from a 0) + n
       \<and> ActualCount a' = ActualCount a + int n"
proof (induction k arbitrary: a)
  case 0
  then show ?case by simp
next
  case (Suc k)
  from Acquire_slot_ok [OF Suc.prems] obtain r where r: "Acquire_slot a = Inr r"
    "\<forall>j. r = Some j \<longrightarrow> 0 \<le> j \<and> j < MaxCount a \<and> \<not> active a j"
    by auto
  show ?case
  proof (cases r)
    case None
    with r have acq: "Acquire a = Inr (Null, a)" by (simp add: Acquire_exhausted)
    from Suc.IH [OF Suc.prems] obtain n a' where
      "acquire_calls k a = Inr (n, a')" "well_formed a'" "MaxCount a' = MaxCount a"
      "length (live_from a' 0) = length (live_from a 0) + n"
      "ActualCount a' = ActualCount a + int n"
      by auto
    with None r acq show ?thesis by simp
  next
    case (Some i)
    with r have i: "0 \<le> i" "i < MaxCount a" "\<not> active a i" and slot: "Acquire_slot a = Inr (Some i)"
      by simp_all
    from Acquire_success [OF Suc.prems slot i] obtain h a1 where a1:
      "Acquire a = Inr (h, a1)" "well_formed a1" "MaxCount a1 = MaxCount a"
      "ActualCount a1 = ActualCount a + 1"
      "\<forall>j. 0 \<le> j \<and> j < MaxCount a \<longrightarrow> active a1 j = (j = i \<or> active a j)"
      by auto
    have len: "length (live_from a1 0) = Suc (length (live_from a 0))"
      using live_from_grows [OF a1(3) i a1(5)] .
    from Suc.IH [OF a1(2)] obtain n a' where
      "acquire_calls k a1 = Inr (n, a')" "well_formed a'" "MaxCount a' = MaxCount a1"
      "length (live_from a' 0) = length (live_from a1 0) + n"
      "ActualCount a' = ActualCount a1 + int n"
      by auto
    with Some slot a1 len show ?thesis by simp
  qed
qed

lemma fresh_no_live: "fresh a \<Longrightarrow> live_from a 0 = []"
  by (simp add: fresh_unfold live_from_def filter_empty_conv)

lemma uint_slot_index:
  "0 \<le> j \<Longrightarrow> j < 0x10000 \<Longrightarrow> uint (word_of_int j :: 16 word) = j"
  by (simp add: uint_word_of_int take_bit_eq_mod)

lemma at_slot_live:
  assumes wf: "well_formed a" and j: "j \<in> set (live_from a 0)"
  shows "CurrentIndex (at_slot p a j) = j
         \<and> uint (Index (CurrentDatumIndex (at_slot p a j))) = j
         \<and> Get a (CurrentDatumIndex (at_slot p a j)) = Inr (Some (DataIterator_arrow a (at_slot p a j)))"
proof -
  from j have r: "0 \<le> j" "j < MaxCount a" "active a j" by (simp_all add: set_live_from)
  from wf r have j16: "j < 0x10000" and dl: "datums_allocated a"
    and nz: "\<not> IsNull (Datums a ! nat j)"
    by (simp_all add: well_formed_unfold)
  have u: "uint (word_of_int j :: 16 word) = j" using r(1) j16 by (rule uint_slot_index)
  then have un: "unat (word_of_int j :: 16 word) = nat j" by (simp add: unat_eq_nat_uint)
  from u un r nz show ?thesis
    by (simp add: at_slot_def Index_make Salt_make Get_in_bounds [OF dl] DataIterator_arrow_def
        IsNull_def GetSalt_def)
qed

lemma fresh_empty_players: "fresh empty_players"
proof -
  have nth: "\<And>i. 0 \<le> i \<Longrightarrow> i < 3 \<Longrightarrow> [DatumBase 0, DatumBase 0, DatumBase 0] ! nat i = DatumBase 0"
  proof -
    fix i :: int assume "0 \<le> i" "i < 3"
    then have "i = 0 \<or> i = 1 \<or> i = 2" by auto
    then show "[DatumBase 0, DatumBase 0, DatumBase 0] ! nat i = DatumBase 0" by auto
  qed
  show ?thesis
    by (simp add: fresh_unfold well_formed_unfold datums_allocated_def active_allocated_def
        active_def IsNull_def empty_players_def nth)
qed

text \<open>
  C2. Take a well-formed array with no active slot (as after its creation) and
  make any number \<open>k\<close> of Acquire calls, with no Release; let \<open>n\<close> be the number
  of those calls that succeeded. Then no call faults, and a full iteration (begin,
  then \<^verbatim>\<open>operator++\<close> until the iterator equals \<^verbatim>\<open>end()\<close>) terminates and yields
  exactly \<open>n\<close> iterator positions, in strictly increasing slot-index order; at each
  position the current handle carries the slot's index and is live: the checked
  lookup returns the very datum reference the iterator yields.
\<close>

theorem iterate_after_acquires:
  assumes "fresh a0"
  shows "\<exists>n a its. acquire_calls k a0 = Inr (n, a)
           \<and> ActualCount a = int n
           \<and> DataArray_iterate this a = Inr its
           \<and> length its = n
           \<and> sorted_wrt (<) (map CurrentIndex its)
           \<and> (\<forall>it \<in> set its.
                 0 \<le> CurrentIndex it \<and> CurrentIndex it < MaxCount a
                 \<and> uint (Index (CurrentDatumIndex it)) = CurrentIndex it
                 \<and> Get a (CurrentDatumIndex it) = Inr (Some (DataIterator_arrow a it)))"
proof -
  from assms have wf0: "well_formed a0" and c0: "ActualCount a0 = 0"
    by (simp_all add: fresh_unfold)
  from acquire_calls_ok [OF wf0, of k] obtain n a where a:
    "acquire_calls k a0 = Inr (n, a)" "well_formed a"
    "length (live_from a 0) = length (live_from a0 0) + n"
    "ActualCount a = ActualCount a0 + int n"
    by auto
  define its where "its = map (at_slot this a) (live_from a 0)"
  from a(2) have "active_allocated a" "datums_allocated a" by (simp_all add: well_formed_unfold)
  then have it: "DataArray_iterate this a = Inr its"
    unfolding its_def by (rule DataArray_iterate_live_from)
  have len: "length its = n"
    using a(3) fresh_no_live [OF assms] by (simp add: its_def)
  have idx: "map CurrentIndex its = live_from a 0"
    by (simp add: its_def at_slot_def comp_def)
  have srt: "sorted_wrt (<) (map CurrentIndex its)"
    by (simp add: idx sorted_live_from)
  have live: "\<forall>it \<in> set its.
                 0 \<le> CurrentIndex it \<and> CurrentIndex it < MaxCount a
                 \<and> uint (Index (CurrentDatumIndex it)) = CurrentIndex it
                 \<and> Get a (CurrentDatumIndex it) = Inr (Some (DataIterator_arrow a it))"
  proof
    fix it assume "it \<in> set its"
    then obtain j where j: "j \<in> set (live_from a 0)" "it = at_slot this a j"
      by (auto simp: its_def)
    from j(1) have "0 \<le> j" "j < MaxCount a" by (simp_all add: set_live_from)
    with at_slot_live [OF a(2) j(1), of this] j(2)
    show "0 \<le> CurrentIndex it \<and> CurrentIndex it < MaxCount a
          \<and> uint (Index (CurrentDatumIndex it)) = CurrentIndex it
          \<and> Get a (CurrentDatumIndex it) = Inr (Some (DataIterator_arrow a it))"
      by simp
  qed
  from a(1) a(4) c0 it len srt live show ?thesis by auto
qed

theorem iterate_after_acquires_witness:
  "fresh empty_players
   \<and> (\<exists>n a its. acquire_calls 4 empty_players = Inr (n, a)
           \<and> ActualCount a = int n
           \<and> DataArray_iterate 0x500 a = Inr its
           \<and> length its = n
           \<and> sorted_wrt (<) (map CurrentIndex its)
           \<and> (\<forall>it \<in> set its.
                 0 \<le> CurrentIndex it \<and> CurrentIndex it < MaxCount a
                 \<and> uint (Index (CurrentDatumIndex it)) = CurrentIndex it
                 \<and> Get a (CurrentDatumIndex it) = Inr (Some (DataIterator_arrow a it))))"
  using fresh_empty_players iterate_after_acquires [OF fresh_empty_players, of 4 "0x500"]
  by simp

text \<open>
  The same run evaluated: of four Acquire calls on the empty three-slot array three
  succeed, and the iteration visits slots 0, 1, 2 with the handles (salt 1, index 0),
  (salt 2, index 1), (salt 3, index 2).
\<close>

lemma four_acquires_on_three_slots:
  "(case acquire_calls 4 empty_players of
      Inl f \<Rightarrow> False
    | Inr (n, a) \<Rightarrow>
        n = 3 \<and>
        (case DataArray_iterate 0x500 a of
           Inl f \<Rightarrow> False
         | Inr its \<Rightarrow>
             map CurrentIndex its = [0, 1, 2]
             \<and> map CurrentDatumIndex its =
                 [DatumIndex_make 1 0, DatumIndex_make 2 1, DatumIndex_make 3 2]))"
  by code_simp

end
